theory Spec2Isabelle
  imports Complex_Main "HOL-Library.AList"
begin

section \<open>Python values, faults and the external encoder\<close>

text \<open>
  The model follows \<^verbatim>\<open>src/utils/context_generation.py\<close>. A Python exception is a value
  of \<open>error\<close> (the exceptions that reach a caller; \<^verbatim>\<open>FileNotFoundError\<close> is caught
  inside \<^verbatim>\<open>read_context\<close>); a function that may raise returns \<open>error + 'a\<close> with \<open>Inl\<close>
  the fault.
  A Python \<^verbatim>\<open>str\<close> is a \<open>string\<close> whose characters are the code points below 256;
  a value that is a \<^verbatim>\<open>str\<close> or \<^verbatim>\<open>None\<close> is a \<open>string option\<close>. A \<^verbatim>\<open>dict\<close> is an
  association list in insertion order, written with \<open>AList.update\<close> (an existing
  key keeps its place, a new key goes last, as in Python). Similarity scores are
  Python floats; the model computes with them as exact reals.
\<close>

datatype error = ZeroDivisionError | TypeError | AttributeError | RuntimeError

fun and_then :: "error + 'a \<Rightarrow> ('a \<Rightarrow> error + 'b) \<Rightarrow> error + 'b" where
  "and_then (Inl e) f = Inl e"
| "and_then (Inr x) f = f x"

text \<open>
  The sentence encoder and the cosine similarity are library code outside the
  repository; they are parameters. \<open>encode\<close> is \<^verbatim>\<open>SentenceTransformer.encode\<close> on
  whatever Python value \<^verbatim>\<open>encodes\<close> hands it (a string or \<^verbatim>\<open>None\<close>), and may fault;
  \<open>cosine_similarity\<close> is \<^verbatim>\<open>torch.nn.functional.cosine_similarity(a, b, dim=0).item()\<close>.
\<close>

record 'e encoder =
  encode :: "string option \<Rightarrow> error + 'e"
  cosine_similarity :: "'e \<Rightarrow> 'e \<Rightarrow> real"

definition encodes :: "'e encoder \<Rightarrow> string option \<Rightarrow> error + 'e" where
  "encodes E text = encode E text"

section \<open>The metadata model\<close>

text \<open>
  \<^verbatim>\<open>tables_dictionary[t_name] = {"comment": .., "columns": {}, "constraints": []}\<close> and
  \<^verbatim>\<open>columns[c_name] = {"type": c_type, "comment": column_comment}\<close>; the column's
  keys are named \<open>col_type\<close> and \<open>col_comment\<close> here.
\<close>

record column_info =
  col_type :: string
  col_comment :: "string option"

record table_info =
  comment :: string
  columns :: "(string \<times> column_info) list"
  constraints :: "string list"

type_synonym tables_metadata = "(string \<times> table_info) list"

type_synonym pruned_results = "(string \<times> string list) list"

section \<open>Characters and string helpers\<close>

text \<open>
  \<^verbatim>\<open>str.isspace\<close> and the regular expression class \<^verbatim>\<open>\s\<close> agree on code points
  below 256: tab to carriage return, the four separators 28 to 31, the blank, NEL
  and the no-break space. \<^verbatim>\<open>\w\<close> is \<^verbatim>\<open>str.isalnum\<close> or the underscore.
\<close>

definition is_space :: "char \<Rightarrow> bool" where
  "is_space c =
     (let n = (of_char c :: nat)
      in (9 \<le> n \<and> n \<le> 13) \<or> (28 \<le> n \<and> n \<le> 32) \<or> n = 133 \<or> n = 160)"

definition is_word :: "char \<Rightarrow> bool" where
  "is_word c =
     (let n = (of_char c :: nat)
      in (48 \<le> n \<and> n \<le> 57) \<or> (65 \<le> n \<and> n \<le> 90) \<or> n = 95 \<or> (97 \<le> n \<and> n \<le> 122)
         \<or> n = 170 \<or> n = 178 \<or> n = 179 \<or> n = 181 \<or> n = 185 \<or> n = 186
         \<or> (188 \<le> n \<and> n \<le> 190) \<or> (192 \<le> n \<and> n \<le> 214) \<or> (216 \<le> n \<and> n \<le> 246)
         \<or> 248 \<le> n)"

text \<open>\<^verbatim>\<open>sep.join(xs)\<close>.\<close>

fun join :: "string \<Rightarrow> string list \<Rightarrow> string" where
  "join sep [] = []"
| "join sep [x] = x"
| "join sep (x # y # ys) = x @ sep @ join sep (y # ys)"

text \<open>\<^verbatim>\<open>s.strip()\<close> and \<^verbatim>\<open>s.strip(chars)\<close> for a one-character set.\<close>

definition strip_by :: "(char \<Rightarrow> bool) \<Rightarrow> string \<Rightarrow> string" where
  "strip_by P s = rev (dropWhile P (rev (dropWhile P s)))"

definition strip :: "string \<Rightarrow> string" where
  "strip s = strip_by is_space s"

definition strip_char :: "char \<Rightarrow> string \<Rightarrow> string" where
  "strip_char c s = strip_by (\<lambda>x. x = c) s"

text \<open>\<^verbatim>\<open>s.startswith(p)\<close> and \<^verbatim>\<open>p in s\<close>.\<close>

definition startswith :: "string \<Rightarrow> string \<Rightarrow> bool" where
  "startswith s p = (take (length p) s = p)"

fun contains :: "string \<Rightarrow> string \<Rightarrow> bool" where
  "contains [] p = (p = [])"
| "contains (c # cs) p = (startswith (c # cs) p \<or> contains cs p)"

section \<open>\<^verbatim>\<open>parse_context\<close>\<close>

abbreviation (input) NL :: char where
  "NL \<equiv> CHR 0x0A"

text \<open>
  \<^verbatim>\<open>re.split(r';\s*(?=--.*?\nCREATE TABLE)', context)\<close>. \<open>boundary s\<close> is the match
  anchored at the head of \<open>s\<close>, as the number of whitespace characters it takes
  after the semicolon. The dot does not match a newline, so the lookahead reads
  the rest of the comment line and wants \<^verbatim>\<open>CREATE TABLE\<close> right after its newline;
  giving back whitespace cannot help, since the lookahead starts with a dash.
\<close>

definition boundary :: "string \<Rightarrow> nat option" where
  "boundary s =
     (if \<not> startswith s '';'' then None
      else
        let s1 = dropWhile is_space (drop 1 s) in
        if \<not> startswith s1 ''--'' then None
        else
          let s2 = dropWhile (\<lambda>c. c \<noteq> NL) (drop 2 s1) in
          if startswith s2 (NL # ''CREATE TABLE'')
          then Some (length (takeWhile is_space (drop 1 s))) else None)"

fun re_split :: "string \<Rightarrow> string list" where
  "re_split [] = [[]]"
| "re_split (c # cs) =
     (case boundary (c # cs) of
        Some n \<Rightarrow> [] # re_split (drop n cs)
      | None \<Rightarrow> (case re_split cs of [] \<Rightarrow> [[c]] | p # ps \<Rightarrow> (c # p) # ps))"

text \<open>
  \<^verbatim>\<open>re.search(r'--(.*?)\nCREATE TABLE (\w+)', text, re.DOTALL)\<close>: from the leftmost
  \<^verbatim>\<open>--\<close>, the lazy group (which crosses newlines under \<^verbatim>\<open>DOTALL\<close>) ends at the first
  place where a newline, \<^verbatim>\<open>CREATE TABLE\<close>, a blank and a word character follow.
  \<open>lazy_until_create\<close> gives the two groups for a group starting at the head.
\<close>

fun lazy_until_create :: "string \<Rightarrow> (string \<times> string) option" where
  "lazy_until_create [] = None"
| "lazy_until_create (c # cs) =
     (if startswith (c # cs) (NL # ''CREATE TABLE '') \<and> takeWhile is_word (drop 14 (c # cs)) \<noteq> []
      then Some ([], takeWhile is_word (drop 14 (c # cs)))
      else map_option (\<lambda>(g, t_name). (c # g, t_name)) (lazy_until_create cs))"

fun table_comment_search :: "string \<Rightarrow> (string \<times> string) option" where
  "table_comment_search [] = None"
| "table_comment_search (c # cs) =
     (if startswith (c # cs) ''--''
      then (case lazy_until_create (drop 1 cs) of
              Some g \<Rightarrow> Some g
            | None \<Rightarrow> table_comment_search cs)
      else table_comment_search cs)"

text \<open>
  \<^verbatim>\<open>re.match(r'(\w+)\s+(\w+)(.*)', line)\<close>; the third group is not used by the
  caller and is left out.
\<close>

definition column_details :: "string \<Rightarrow> (string \<times> string) option" where
  "column_details line =
     (let c_name = takeWhile is_word line;
          r1 = dropWhile is_word line;
          c_type = takeWhile is_word (dropWhile is_space r1)
      in if c_name = [] \<or> takeWhile is_space r1 = [] \<or> c_type = [] then None
         else Some (c_name, c_type))"

text \<open>\<^verbatim>\<open>text.split('\n')\<close>.\<close>

fun split_lines :: "string \<Rightarrow> string list" where
  "split_lines [] = [[]]"
| "split_lines (c # cs) =
     (if c = NL then [] # split_lines cs
      else (case split_lines cs of [] \<Rightarrow> [[c]] | l # ls \<Rightarrow> (c # l) # ls))"

text \<open>
  The loop over the lines of one segment. It changes only the entry of the
  segment's table, so the model threads that entry and the pending
  \<^verbatim>\<open>column_comment\<close>.
\<close>

fun parse_lines :: "string list \<Rightarrow> string option \<Rightarrow> table_info \<Rightarrow> table_info" where
  "parse_lines [] column_comment info = info"
| "parse_lines (raw # rest) column_comment info =
     (let line = strip raw in
      if line = [] \<or> startswith line ''CREATE TABLE'' then parse_lines rest column_comment info
      else if startswith line ''--''
      then parse_lines rest (Some (strip (strip_char (CHR ''-'') line))) info
      else if contains line ''PRIMARY KEY'' \<or> contains line ''FOREIGN KEY''
      then parse_lines rest column_comment
             (info\<lparr>constraints := constraints info @ [strip_char (CHR '','') line]\<rparr>)
      else
        (case column_details line of
           Some (c_name, c_type) \<Rightarrow>
             parse_lines rest None
               (info\<lparr>columns :=
                  AList.update c_name \<lparr>col_type = c_type, col_comment = column_comment\<rparr>
                    (columns info)\<rparr>)
         | None \<Rightarrow> parse_lines rest column_comment info))"

fun parse_segments :: "string list \<Rightarrow> tables_metadata \<Rightarrow> tables_metadata" where
  "parse_segments [] tables_dictionary = tables_dictionary"
| "parse_segments (text # rest) tables_dictionary =
     (case table_comment_search text of
        None \<Rightarrow> parse_segments rest tables_dictionary
      | Some (table_comment, t_name) \<Rightarrow>
          parse_segments rest
            (AList.update t_name
               (parse_lines (split_lines text) None
                  \<lparr>comment = strip table_comment, columns = [], constraints = []\<rparr>)
               tables_dictionary))"

definition parse_context :: "string \<Rightarrow> tables_metadata" where
  "parse_context context = parse_segments (re_split context) []"

section \<open>\<^verbatim>\<open>read_context\<close>\<close>

text \<open>
  The file system is a map from paths to contents. The result is what was
  printed and the returned value (\<open>None\<close> is Python's \<^verbatim>\<open>None\<close>).
\<close>

definition read_context ::
  "(string \<rightharpoonup> string) \<Rightarrow> string \<Rightarrow> string list \<times> tables_metadata option" where
  "read_context fs path =
     (case fs path of
        Some context \<Rightarrow> ([], Some (parse_context context))
      | None \<Rightarrow> ([''File is not found: '' @ path], None))"

section \<open>Foreign keys: \<^verbatim>\<open>extract_key_columns\<close>\<close>

text \<open>
  \<^verbatim>\<open>re.search(r'FOREIGN KEY\s*\(([^)]+)\)\s+REFERENCES\s+(\w+)', constraint)\<close>.
  Every repetition of the pattern is followed by a character outside its class, so
  a match from a given start is the greedy one or none; \<open>fk_match_here\<close> is the
  match anchored at the head of the string and \<open>fk_match\<close> tries the starts from
  the left. The result is the two groups.
\<close>

definition fk_match_here :: "string \<Rightarrow> (string \<times> string) option" where
  "fk_match_here s =
     (if \<not> startswith s ''FOREIGN KEY'' then None
      else
        let s1 = dropWhile is_space (drop 11 s) in
        if \<not> startswith s1 ''('' then None
        else
          let fk_column = takeWhile (\<lambda>c. c \<noteq> CHR '')'') (drop 1 s1);
              s2 = dropWhile (\<lambda>c. c \<noteq> CHR '')'') (drop 1 s1) in
          if fk_column = [] \<or> \<not> startswith s2 '')'' then None
          else
            let s3 = dropWhile is_space (drop 1 s2) in
            if takeWhile is_space (drop 1 s2) = [] \<or> \<not> startswith s3 ''REFERENCES'' then None
            else
              let s4 = dropWhile is_space (drop 10 s3);
                  referenced_table = takeWhile is_word s4 in
              if takeWhile is_space (drop 10 s3) = [] \<or> referenced_table = [] then None
              else Some (fk_column, referenced_table))"

fun fk_match :: "string \<Rightarrow> (string \<times> string) option" where
  "fk_match [] = fk_match_here []"
| "fk_match (c # cs) =
     (case fk_match_here (c # cs) of Some g \<Rightarrow> Some g | None \<Rightarrow> fk_match cs)"

text \<open>
  \<^verbatim>\<open>key_columns.setdefault(referenced_table, []).append(fk_column)\<close> on the
  dictionary \<open>key_columns\<close>.
\<close>

definition setdefault_append ::
  "string \<Rightarrow> string \<Rightarrow> (string \<times> string list) list \<Rightarrow> (string \<times> string list) list" where
  "setdefault_append k v key_columns =
     (case map_of key_columns k of
        None \<Rightarrow> AList.update k [v] key_columns
      | Some vs \<Rightarrow> AList.update k (vs @ [v]) key_columns)"

fun extract_key_columns_loop ::
  "string list \<Rightarrow> string set \<Rightarrow> (string \<times> string list) list \<Rightarrow> (string \<times> string list) list" where
  "extract_key_columns_loop [] referenced_tables key_columns = key_columns"
| "extract_key_columns_loop (constraint # rest) referenced_tables key_columns =
     (case fk_match constraint of
        Some (fk_column, referenced_table) \<Rightarrow>
          if referenced_table \<in> referenced_tables
          then extract_key_columns_loop rest referenced_tables
                 (setdefault_append referenced_table (strip fk_column) key_columns)
          else extract_key_columns_loop rest referenced_tables key_columns
      | None \<Rightarrow> extract_key_columns_loop rest referenced_tables key_columns)"

definition extract_key_columns ::
  "string list \<Rightarrow> string set \<Rightarrow> (string \<times> string list) list" where
  "extract_key_columns cs referenced_tables = extract_key_columns_loop cs referenced_tables []"

section \<open>\<^verbatim>\<open>format_top_k\<close>\<close>

definition format_top_k :: "pruned_results \<Rightarrow> string" where
  "format_top_k pruned =
     join '' ''
       (map (\<lambda>(table_name, cols).
               ''(TABLE: '' @ table_name @ '' COLUMNS: '' @ join '', '' cols @ '')'')
            pruned)"

section \<open>\<^verbatim>\<open>prune_top_k\<close>\<close>

subsection \<open>Step 1: the pooled similarities\<close>

fun column_similarities ::
  "'e encoder \<Rightarrow> 'e \<Rightarrow> (string \<times> column_info) list \<Rightarrow> real list \<Rightarrow> error + real list" where
  "column_similarities E question_emb [] all_sim = Inr all_sim"
| "column_similarities E question_emb (c # cs) all_sim =
     and_then (encodes E (col_comment (snd c)))
       (\<lambda>column_emb. column_similarities E question_emb cs
                        (all_sim @ [cosine_similarity E question_emb column_emb]))"

fun compute_similarities ::
  "'e encoder \<Rightarrow> 'e \<Rightarrow> tables_metadata \<Rightarrow> real list \<Rightarrow> error + real list" where
  "compute_similarities E question_emb [] all_sim = Inr all_sim"
| "compute_similarities E question_emb (t # ts) all_sim =
     and_then (encodes E (Some (comment (snd t))))
       (\<lambda>table_emb.
          and_then (column_similarities E question_emb (columns (snd t))
                      (all_sim @ [cosine_similarity E question_emb table_emb]))
            (\<lambda>all_sim'. compute_similarities E question_emb ts all_sim'))"

subsection \<open>Step 2: the threshold\<close>

text \<open>
  \<^verbatim>\<open>mean_similarity = sum(all_sim) / len(all_sim)\<close> raises \<^verbatim>\<open>ZeroDivisionError\<close> on the
  empty list; then \<^verbatim>\<open>mean_similarity - (mean_similarity * 0.05)\<close>.
\<close>

definition mean_similarity :: "real list \<Rightarrow> error + real" where
  "mean_similarity all_sim =
     (if length all_sim = 0 then Inl ZeroDivisionError
      else
        let mean = sum_list all_sim / real (length all_sim)
        in Inr (mean - mean * (5 / 100)))"

subsection \<open>Step 3: pruning by the threshold\<close>

fun prune_columns ::
  "'e encoder \<Rightarrow> 'e \<Rightarrow> real \<Rightarrow> (string \<times> column_info) list \<Rightarrow> string list \<Rightarrow> error + string list" where
  "prune_columns E question_emb thr [] pruned_columns = Inr pruned_columns"
| "prune_columns E question_emb thr (c # cs) pruned_columns =
     and_then (encodes E (col_comment (snd c)))
       (\<lambda>column_emb.
          prune_columns E question_emb thr cs
            (if cosine_similarity E question_emb column_emb > thr
             then pruned_columns @ [fst c] else pruned_columns))"

fun prune_tables ::
  "'e encoder \<Rightarrow> 'e \<Rightarrow> real \<Rightarrow> tables_metadata \<Rightarrow> pruned_results \<Rightarrow> error + pruned_results" where
  "prune_tables E question_emb thr [] pruned = Inr pruned"
| "prune_tables E question_emb thr (t # ts) pruned =
     and_then (encodes E (Some (comment (snd t))))
       (\<lambda>table_emb.
          if cosine_similarity E question_emb table_emb > thr
          then
            and_then (prune_columns E question_emb thr (columns (snd t)) [])
              (\<lambda>pruned_columns.
                 prune_tables E question_emb thr ts
                   (if pruned_columns \<noteq> [] then AList.update (fst t) pruned_columns pruned
                    else pruned))
          else prune_tables E question_emb thr ts pruned)"

subsection \<open>Step 4: the key columns\<close>

text \<open>
  \<^verbatim>\<open>pruned_results[k]\<close> is read only for a key that is in the dictionary (the loop
  tests \<^verbatim>\<open>table_name in pruned_results\<close> and \<^verbatim>\<open>ref_table in pruned_results\<close> first, and
  no key is ever removed), so the \<^verbatim>\<open>KeyError\<close> branch of \<open>get_columns\<close> is not
  reached; lemma \<open>inject_refs_keys\<close> below shows the keys stay.
\<close>

definition get_columns :: "pruned_results \<Rightarrow> string \<Rightarrow> string list" where
  "get_columns pruned k = (case map_of pruned k of Some cols \<Rightarrow> cols | None \<Rightarrow> [])"

fun inject_refs ::
  "string \<Rightarrow> (string \<times> string list) list \<Rightarrow> pruned_results \<Rightarrow> pruned_results" where
  "inject_refs table_name [] pruned = pruned"
| "inject_refs table_name (r # rest) pruned =
     (let pruned1 = AList.update table_name (snd r @ get_columns pruned table_name) pruned;
          pruned2 =
            (if fst r \<noteq> table_name \<and> fst r \<in> fst ` set pruned1
             then AList.update (fst r) (snd r @ get_columns pruned1 (fst r)) pruned1
             else pruned1)
      in inject_refs table_name rest pruned2)"

fun inject_keys ::
  "tables_metadata \<Rightarrow> string set \<Rightarrow> pruned_results \<Rightarrow> pruned_results" where
  "inject_keys [] referenced_tables pruned = pruned"
| "inject_keys (t # ts) referenced_tables pruned =
     (if fst t \<in> fst ` set pruned
      then inject_keys ts referenced_tables
             (inject_refs (fst t)
                (extract_key_columns (constraints (snd t)) referenced_tables) pruned)
      else inject_keys ts referenced_tables pruned)"

text \<open>Step 4 as a whole: \<^verbatim>\<open>referenced_tables = set(pruned_results.keys())\<close>, then the loop.\<close>

definition ensure_keys :: "tables_metadata \<Rightarrow> pruned_results \<Rightarrow> pruned_results" where
  "ensure_keys tables pruned = inject_keys tables (fst ` set pruned) pruned"

subsection \<open>The function\<close>

text \<open>The second argument, \<^verbatim>\<open>results\<close>, is never read.\<close>

definition prune_top_k ::
  "'e encoder \<Rightarrow> string \<Rightarrow> pruned_results \<Rightarrow> tables_metadata \<Rightarrow> error + string" where
  "prune_top_k E question results tables =
     and_then (encodes E (Some question))
       (\<lambda>question_emb.
          and_then (compute_similarities E question_emb tables [])
            (\<lambda>all_sim.
               and_then (mean_similarity all_sim)
                 (\<lambda>thr.
                    and_then (prune_tables E question_emb thr tables [])
                      (\<lambda>pruned. Inr (format_top_k (ensure_keys tables pruned))))))"

section \<open>\<^verbatim>\<open>get_top_k\<close> and \<^verbatim>\<open>generate_prompt\<close>\<close>

text \<open>
  \<^verbatim>\<open>torch.topk(input, k)\<close> is library code: it raises \<^verbatim>\<open>RuntimeError\<close> (selected index
  k out of range) unless \<open>0 \<le> k \<le> length input\<close>, and otherwise gives the indices
  of the \<open>k\<close> largest values in descending order of value. The order among equal
  values is the library's; the model lists the later index first. \<^verbatim>\<open>get_top_k\<close>
  only builds \<^verbatim>\<open>results\<close> from the indices.
\<close>

definition topk :: "real list \<Rightarrow> int \<Rightarrow> error + nat list" where
  "topk xs k =
     (if k < 0 \<or> int (length xs) < k then Inl RuntimeError
      else Inr (take (nat k) (rev (sort_key (\<lambda>i. xs ! i) [0..<length xs]))))"

fun encode_tables :: "'e encoder \<Rightarrow> tables_metadata \<Rightarrow> error + 'e list" where
  "encode_tables E [] = Inr []"
| "encode_tables E (t # ts) =
     and_then (encodes E (Some (comment (snd t))))
       (\<lambda>emb. and_then (encode_tables E ts) (\<lambda>embs. Inr (emb # embs)))"

fun build_results :: "tables_metadata \<Rightarrow> nat list \<Rightarrow> pruned_results \<Rightarrow> pruned_results" where
  "build_results tables [] results = results"
| "build_results tables (i # idx) results =
     (let table_name = fst (tables ! i) in
      case map_of tables table_name of
        Some table_info \<Rightarrow>
          build_results tables idx
            (AList.update table_name (map fst (columns table_info)) results)
      | None \<Rightarrow> build_results tables idx results)"

text \<open>
  \<open>tables_metadata\<close> is what \<^verbatim>\<open>read_context\<close> returned and may be \<^verbatim>\<open>None\<close>:
  \<^verbatim>\<open>tables_metadata.values()\<close> then raises \<^verbatim>\<open>AttributeError\<close>. \<^verbatim>\<open>torch.stack\<close> raises
  \<^verbatim>\<open>RuntimeError\<close> on an empty list.
\<close>

definition get_top_k ::
  "'e encoder \<Rightarrow> string \<Rightarrow> tables_metadata option \<Rightarrow> int \<Rightarrow> error + string" where
  "get_top_k E question tables_metadata k =
     and_then (encodes E (Some question))
       (\<lambda>question_emb.
          case tables_metadata of
            None \<Rightarrow> Inl AttributeError
          | Some tables \<Rightarrow>
              and_then (encode_tables E tables)
                (\<lambda>table_embs.
                   if table_embs = [] then Inl RuntimeError
                   else
                     let cos_similarities = map (cosine_similarity E question_emb) table_embs in
                     and_then (topk cos_similarities (min k (int (length cos_similarities))))
                       (\<lambda>top_k_indices.
                          prune_top_k E question (build_results tables top_k_indices []) tables)))"

definition generate_prompt ::
  "'e encoder \<Rightarrow> (string \<rightharpoonup> string) \<Rightarrow> string \<Rightarrow> string \<Rightarrow> string list \<times> (error + string)" where
  "generate_prompt E fs context_path question =
     (let (printed, tables_metadata) = read_context fs context_path in
      (printed,
       and_then (get_top_k E question tables_metadata 5)
         (\<lambda>context.
            Inr (''### Question: '' @ question @ [NL] @ ''### Context: '' @ context @ [NL]
                 @ ''### Answer: ''))))"

section \<open>The properties, stated directly\<close>

subsection \<open>The pruner's selection\<close>

text \<open>
  The texts the pruner scores, in the order it scores them: for every table its
  comment, then the comments of its columns (\<open>None\<close> for a column without one).
\<close>

definition scored_texts :: "tables_metadata \<Rightarrow> string option list" where
  "scored_texts tables =
     concat (map (\<lambda>t. Some (comment (snd t)) # map (\<lambda>c. col_comment (snd c)) (columns (snd t)))
                 tables)"




text \<open>Every score raised by the constant \<open>c\<close>.\<close>

definition shift_scores :: "real \<Rightarrow> 'e encoder \<Rightarrow> 'e encoder" where
  "shift_scores c E = E\<lparr>cosine_similarity := (\<lambda>a b. cosine_similarity E a b + c)\<rparr>"

subsection \<open>The key columns\<close>

text \<open>
  \<open>fk_columns cs R r\<close>: the (stripped) column texts of the foreign keys among the
  constraints \<open>cs\<close> that reference table \<open>r\<close>, when \<open>r\<close> is among the surviving
  tables \<open>R\<close>. \<open>contributed n fk k\<close>: what the inner loop for table \<open>n\<close>, run on the
  extracted foreign keys \<open>fk\<close>, puts in front of the list of table \<open>k\<close>.
  \<open>key_prefix tables K k\<close>: what the whole of step 4 puts in front of the list of
  table \<open>k\<close> when \<open>K\<close> are the surviving tables.
\<close>

definition contributed :: "string \<Rightarrow> (string \<times> string list) list \<Rightarrow> string \<Rightarrow> string list" where
  "contributed n fk k = concat (rev (map snd (filter (\<lambda>r. k = n \<or> fst r = k) fk)))"

definition key_prefix :: "tables_metadata \<Rightarrow> string set \<Rightarrow> string \<Rightarrow> string list" where
  "key_prefix tables K k =
     concat (rev (map (\<lambda>t. contributed (fst t) (extract_key_columns (constraints (snd t)) K) k)
                      (filter (\<lambda>t. fst t \<in> K) tables)))"

definition fk_columns :: "string list \<Rightarrow> string set \<Rightarrow> string \<Rightarrow> string list" where
  "fk_columns cs R r =
     concat (map (\<lambda>c. case fk_match c of
                         Some (col, r') \<Rightarrow> if r' = r \<and> r \<in> R then [strip col] else []
                       | None \<Rightarrow> []) cs)"

subsection \<open>Column lines\<close>

text \<open>
  The name under which the line loop of \<^verbatim>\<open>parse_context\<close> files a line as a column:
  the line, stripped, is not blank, is no \<^verbatim>\<open>CREATE TABLE\<close> header, no comment and no
  key constraint, and matches the column pattern.
\<close>

definition column_line_name :: "string \<Rightarrow> string option" where
  "column_line_name raw =
     (let line = strip raw in
      if line = [] \<or> startswith line ''CREATE TABLE'' \<or> startswith line ''--''
         \<or> contains line ''PRIMARY KEY'' \<or> contains line ''FOREIGN KEY''
      then None
      else map_option fst (column_details line))"

subsection \<open>Schemas of commented statements\<close>

text \<open>
  A schema text written out statement by statement. A statement is a comment
  line, the header with the table name, a body, then any number of statements
  without a comment of their own (each after a semicolon and whitespace, given
  as that whitespace and the text after \<^verbatim>\<open>CREATE TABLE\<close>), the closing semicolon,
  and whitespace up to the next commented statement. \<open>segment\<close> is the statement
  up to its closing semicolon.
\<close>

record statement =
  st_comment :: string
  st_name :: string
  st_body :: string
  st_follow :: "(string \<times> string) list"
  st_gap :: string

definition uncommented :: "string \<times> string \<Rightarrow> string" where
  "uncommented f = '';'' @ fst f @ ''CREATE TABLE'' @ snd f"

definition segment :: "statement \<Rightarrow> string" where
  "segment s =
     ''--'' @ st_comment s @ [NL] @ ''CREATE TABLE '' @ st_name s @ st_body s
     @ concat (map uncommented (st_follow s))"

fun render :: "statement list \<Rightarrow> string" where
  "render [] = []"
| "render (s # rest) = segment s @ '';'' @ st_gap s @ render rest"

definition well_formed :: "statement \<Rightarrow> bool" where
  "well_formed s =
     (NL \<notin> set (st_comment s) \<and> CHR '';'' \<notin> set (st_comment s)
      \<and> st_name s \<noteq> [] \<and> list_all is_word (st_name s)
      \<and> CHR '';'' \<notin> set (st_body s) \<and> (st_body s = [] \<or> \<not> is_word (hd (st_body s)))
      \<and> list_all (\<lambda>f. list_all is_space (fst f) \<and> CHR '';'' \<notin> set (snd f)) (st_follow s)
      \<and> list_all is_space (st_gap s))"

text \<open>What the parser stores for a statement whose segment is \<open>seg\<close>.\<close>

definition entry_of :: "string \<Rightarrow> statement \<Rightarrow> string \<times> table_info" where
  "entry_of seg s =
     (st_name s,
      parse_lines (split_lines seg) None
        \<lparr>comment = strip (st_comment s), columns = [], constraints = []\<rparr>)"

text \<open>\<open>attach X ps\<close> puts the text \<open>X\<close> in front of the first piece of \<open>ps\<close>.\<close>

definition attach :: "string \<Rightarrow> string list \<Rightarrow> string list" where
  "attach X ps = (case ps of [] \<Rightarrow> [X] | p # ps' \<Rightarrow> (X @ p) # ps')"

section \<open>Concrete inputs\<close>

text \<open>
  An encoder for the evaluations below: the embedding of a text is its length, a
  non-string is rejected with \<^verbatim>\<open>TypeError\<close> (as the library's tokenizer rejects
  one), and the score of two embeddings falls by a tenth per character of
  difference, down to \<open>-1\<close>.
\<close>

definition length_encoder :: "real encoder" where
  "length_encoder =
     \<lparr>encode = (\<lambda>text. case text of None \<Rightarrow> Inl TypeError | Some s \<Rightarrow> Inr (real (length s))),
      cosine_similarity = (\<lambda>a b. max (- 1) (1 - \<bar>a - b\<bar> / 10))\<rparr>"

definition demo_tables :: tables_metadata where
  "demo_tables =
     [(''grade'',
       \<lparr>comment = ''grades'',
        columns = [(''student_id'', \<lparr>col_type = ''INTEGER'', col_comment = Some ''id''\<rparr>),
                   (''grade'', \<lparr>col_type = ''REAL'', col_comment = Some ''the grade''\<rparr>)],
        constraints = [''FOREIGN KEY (student_id) REFERENCES student_details (student_id)'']\<rparr>),
      (''student_details'',
       \<lparr>comment = ''student'',
        columns = [(''student_id'', \<lparr>col_type = ''INTEGER'', col_comment = Some ''id''\<rparr>),
                   (''given_name'', \<lparr>col_type = ''TEXT'', col_comment = Some ''name''\<rparr>),
                   (''age'', \<lparr>col_type = ''INTEGER'', col_comment = Some ''x''\<rparr>)],
        constraints = [''PRIMARY KEY (student_id)'']\<rparr>)]"

text \<open>What step 3 keeps of \<open>demo_tables\<close> for the question \<^verbatim>\<open>grades?\<close>.\<close>

definition demo_pruned :: pruned_results where
  "demo_pruned = [(''grade'', [''grade'']), (''student_details'', [''given_name''])]"


text \<open>A schema whose second column has no comment line.\<close>

definition null_comment_schema :: string where
  "null_comment_schema =
     ''-- students'' @ [NL] @
     ''CREATE TABLE student_details ('' @ [NL] @
     ''    -- the id'' @ [NL] @
     ''    student_id INTEGER,'' @ [NL] @
     ''    age INTEGER'' @ [NL] @
     '');''"

text \<open>Two statements without a table comment; the first has a column comment.\<close>

definition uncommented_schema :: string where
  "uncommented_schema =
     ''CREATE TABLE a ('' @ [NL] @
     ''-- the id'' @ [NL] @
     ''id INT'' @ [NL] @
     '');'' @ [NL] @
     ''CREATE TABLE b ('' @ [NL] @
     ''y INT'' @ [NL] @
     '');''"

text \<open>
  A commented statement followed by one without a comment, and a second
  commented statement.
\<close>

definition mixed_schema :: "statement list" where
  "mixed_schema =
     [\<lparr>st_comment = '' students enrolled'', st_name = ''student_details'',
       st_body = '' ('' @ [NL] @ ''    -- the id'' @ [NL] @ ''    student_id INTEGER'' @ [NL] @ '')'',
       st_follow =
         [([NL],
           '' grade ('' @ [NL] @ ''    grade REAL,'' @ [NL] @
           ''    FOREIGN KEY (student_id) REFERENCES student_details (student_id)'' @ [NL] @ '')'')],
       st_gap = [NL]\<rparr>,
      \<lparr>st_comment = '' units'', st_name = ''unit'',
       st_body = '' ('' @ [NL] @ ''    -- the title'' @ [NL] @ ''    title TEXT'' @ [NL] @ '')'',
       st_follow = [], st_gap = []\<rparr>]"

section \<open>The empty schema and the missing file\<close>

text \<open>
  C7. On a metadata model with no table the pooled list is empty and the mean is a
  division by zero. The pruner has no guard: once the question is encoded it
  raises \<^verbatim>\<open>ZeroDivisionError\<close>, and it never returns a context, empty or not.
  Called through \<^verbatim>\<open>get_top_k\<close>, the empty model faults before the pruner is
  reached, in \<^verbatim>\<open>torch.stack\<close>.
\<close>

theorem prune_top_k_empty_schema:
  "prune_top_k E question results [] =
     and_then (encodes E (Some question)) (\<lambda>_. Inl ZeroDivisionError)
   \<and> (\<forall>s. prune_top_k E question results [] \<noteq> Inr s)
   \<and> get_top_k E question (Some []) k =
     and_then (encodes E (Some question)) (\<lambda>_. Inl RuntimeError)
   \<and> (\<forall>s. get_top_k E question (Some []) k \<noteq> Inr s)"
  by (cases "encodes E (Some question)")
     (simp_all add: prune_top_k_def mean_similarity_def get_top_k_def)

theorem prune_top_k_empty_schema_witness:
  "prune_top_k length_encoder ''grades?'' [] [] = Inl ZeroDivisionError
   \<and> get_top_k length_encoder ''grades?'' (Some []) 5 = Inl RuntimeError
   \<and> parse_context [] = []"
  using prune_top_k_empty_schema [of length_encoder "''grades?''" "[]" 5]
  by (simp add: encodes_def length_encoder_def parse_context_def)

text \<open>
  C6. For a path with no file, \<^verbatim>\<open>read_context\<close> prints its message and returns
  \<^verbatim>\<open>None\<close>. \<^verbatim>\<open>generate_prompt\<close> hands that \<^verbatim>\<open>None\<close> to \<^verbatim>\<open>get_top_k\<close>, which encodes the
  question and then raises \<^verbatim>\<open>AttributeError\<close> on \<^verbatim>\<open>None.values()\<close>: the top-level call
  never returns a prompt.
\<close>

theorem generate_prompt_missing_file:
  assumes "fs path = None"
  shows "read_context fs path = ([''File is not found: '' @ path], None)
    \<and> generate_prompt E fs path question =
        ([''File is not found: '' @ path],
         and_then (encodes E (Some question)) (\<lambda>_. Inl AttributeError))
    \<and> (\<forall>s. snd (generate_prompt E fs path question) \<noteq> Inr s)"
  using assms
  by (cases "encodes E (Some question)")
     (simp_all add: read_context_def generate_prompt_def get_top_k_def)

theorem generate_prompt_missing_file_witness:
  "generate_prompt length_encoder Map.empty ''missing.sql'' ''grades?'' =
     ([''File is not found: missing.sql''], Inl AttributeError)"
  using generate_prompt_missing_file [of Map.empty "''missing.sql''" length_encoder "''grades?''"]
  by (simp add: encodes_def length_encoder_def)

section \<open>The top-k preselection\<close>

lemma topk_nonneg:
  "0 \<le> k \<Longrightarrow> \<exists>idx. topk xs (min k (int (length xs))) = Inr idx"
  by (simp add: topk_def)

lemma prune_top_k_results_unread:
  "prune_top_k E question results tables = prune_top_k E question [] tables"
  by (simp add: prune_top_k_def)

lemma get_top_k_nonneg:
  assumes "0 \<le> k"
  shows "get_top_k E question tables_metadata k =
        and_then (encodes E (Some question))
         (\<lambda>question_emb.
            case tables_metadata of
              None \<Rightarrow> Inl AttributeError
            | Some tables \<Rightarrow>
                and_then (encode_tables E tables)
                  (\<lambda>table_embs. if table_embs = [] then Inl RuntimeError
                                 else prune_top_k E question [] tables))"
proof -
  have skip: "and_then (topk xs (min k (int (length xs))))
                (\<lambda>idx. prune_top_k E question (f idx) tables)
              = prune_top_k E question [] tables" for xs f tables
    using topk_nonneg [OF assms, of xs] by (auto simp: prune_top_k_def)
  show ?thesis
    unfolding get_top_k_def Let_def skip ..
qed

text \<open>
  C9 (as amended). For every question, metadata model and pair of non-negative
  values of \<open>k\<close>, \<^verbatim>\<open>get_top_k\<close> gives the same outcome, and \<^verbatim>\<open>prune_top_k\<close> gives the same
  outcome for every preselected \<^verbatim>\<open>results\<close> argument: it never reads it. A negative
  \<open>k\<close> is excluded because \<^verbatim>\<open>torch.topk\<close> rejects it before the pruner runs.
\<close>

theorem get_top_k_ignores_k:
  "(0 \<le> k1 \<and> 0 \<le> k2 \<longrightarrow>
      get_top_k E question tables_metadata k1 = get_top_k E question tables_metadata k2)
   \<and> prune_top_k E question results1 tables = prune_top_k E question results2 tables"
  by (simp add: get_top_k_nonneg prune_top_k_results_unread [of E question results1]
      prune_top_k_results_unread [of E question results2])

theorem get_top_k_ignores_k_witness:
  "get_top_k length_encoder ''grades?'' (Some demo_tables) 1
     = get_top_k length_encoder ''grades?'' (Some demo_tables) 5
   \<and> get_top_k length_encoder ''grades?'' (Some demo_tables) 5
     = Inr ''(TABLE: grade COLUMNS: student_id, grade) (TABLE: student_details COLUMNS: student_id, given_name)''"
proof -
  have "get_top_k length_encoder ''grades?'' (Some demo_tables) 1
     = get_top_k length_encoder ''grades?'' (Some demo_tables) 5"
    using get_top_k_ignores_k [of 1 5 length_encoder "''grades?''" "Some demo_tables"]
    by simp
  moreover have "get_top_k length_encoder ''grades?'' (Some demo_tables) 5
     = Inr ''(TABLE: grade COLUMNS: student_id, grade) (TABLE: student_details COLUMNS: student_id, given_name)''"
    by code_simp
  ultimately show ?thesis by simp
qed

theorem get_top_k_negative_k_counterexample:
  "get_top_k length_encoder ''grades?'' (Some demo_tables) (- 1)
     \<noteq> get_top_k length_encoder ''grades?'' (Some demo_tables) 5"
proof -
  have "get_top_k length_encoder ''grades?'' (Some demo_tables) (- 1) = Inl RuntimeError"
    by code_simp
  moreover have "get_top_k length_encoder ''grades?'' (Some demo_tables) 5
     = Inr ''(TABLE: grade COLUMNS: student_id, grade) (TABLE: student_details COLUMNS: student_id, given_name)''"
    by code_simp
  ultimately show ?thesis by simp
qed

section \<open>The threshold and the selection\<close>

lemma and_then_Inr_iff:
  "and_then m f = Inr y \<longleftrightarrow> (\<exists>x. m = Inr x \<and> f x = Inr y)"
  by (cases m) auto



lemma column_similarities_encoded:
  "column_similarities E q cs acc = Inr r \<Longrightarrow>
   \<forall>c \<in> set cs. \<exists>e. encodes E (col_comment (snd c)) = Inr e"
  by (induction cs arbitrary: acc) (auto simp: and_then_Inr_iff)

lemma compute_similarities_encoded:
  "compute_similarities E q tables acc = Inr r \<Longrightarrow>
   \<forall>x \<in> set (scored_texts tables). \<exists>e. encodes E x = Inr e"
proof (induction tables arbitrary: acc)
  case Nil
  then show ?case by (simp add: scored_texts_def)
next
  case (Cons t ts)
  from Cons.prems obtain e r1 where
    e: "encodes E (Some (comment (snd t))) = Inr e"
    and r1: "column_similarities E q (columns (snd t)) (acc @ [cosine_similarity E q e]) = Inr r1"
    and r2: "compute_similarities E q ts r1 = Inr r"
    by (auto simp: and_then_Inr_iff)
  from column_similarities_encoded [OF r1] Cons.IH [OF r2] e
  show ?case by (auto simp: scored_texts_def)
qed


lemma update_fresh:
  "k \<notin> fst ` set al \<Longrightarrow> AList.update k v al = al @ [(k, v)]"
  by (induction al) auto







lemma encodes_shift [simp]: "encodes (shift_scores c E) x = encodes E x"
  by (simp add: encodes_def shift_scores_def)

lemma cosine_shift [simp]:
  "cosine_similarity (shift_scores c E) a b = cosine_similarity E a b + c"
  by (simp add: shift_scores_def)



section \<open>The key-column injector\<close>

lemma get_columns_update:
  "get_columns (AList.update k v al) k' = (if k' = k then v else get_columns al k')"
  by (simp add: get_columns_def update_conv')

lemma keys_update_present:
  "k \<in> fst ` set al \<Longrightarrow> map fst (AList.update k v al) = map fst al"
  by (simp add: update_keys)

lemma keys_image: "fst ` set al = set (map fst al)"
  by simp

lemma inject_refs_keys:
  "n \<in> fst ` set pruned \<Longrightarrow> map fst (inject_refs n fk pruned) = map fst pruned"
proof (induction fk arbitrary: pruned)
  case Nil
  then show ?case by simp
next
  case (Cons r rest)
  let ?p1 = "AList.update n (snd r @ get_columns pruned n) pruned"
  let ?p2 = "if fst r \<noteq> n \<and> fst r \<in> fst ` set ?p1
             then AList.update (fst r) (snd r @ get_columns ?p1 (fst r)) ?p1 else ?p1"
  have k1: "map fst ?p1 = map fst pruned"
    using Cons.prems by (rule keys_update_present)
  have k2: "map fst ?p2 = map fst pruned"
    using k1 by (simp add: keys_update_present)
  have "n \<in> set (map fst ?p2)" unfolding k2 using Cons.prems by simp
  then have "n \<in> fst ` set ?p2" by simp
  from Cons.IH [OF this] k2 show ?case by (simp add: Let_def)
qed

lemma inject_refs_columns:
  assumes "n \<in> fst ` set pruned" and "k \<in> fst ` set pruned"
  shows "get_columns (inject_refs n fk pruned) k = contributed n fk k @ get_columns pruned k"
  using assms
proof (induction fk arbitrary: pruned)
  case Nil
  then show ?case by (simp add: contributed_def)
next
  case (Cons r rest)
  let ?p1 = "AList.update n (snd r @ get_columns pruned n) pruned"
  let ?p2 = "if fst r \<noteq> n \<and> fst r \<in> fst ` set ?p1
             then AList.update (fst r) (snd r @ get_columns ?p1 (fst r)) ?p1 else ?p1"
  have k1: "map fst ?p1 = map fst pruned"
    using Cons.prems(1) by (rule keys_update_present)
  then have s1: "fst ` set ?p1 = fst ` set pruned"
    by (metis keys_image)
  have k2: "map fst ?p2 = map fst pruned"
    using k1 by (simp add: keys_update_present)
  then have s2: "fst ` set ?p2 = fst ` set pruned"
    by (metis keys_image)
  have step: "get_columns ?p2 k = (if k = n \<or> fst r = k then snd r else []) @ get_columns pruned k"
    using Cons.prems(2) unfolding s1 by (auto simp: get_columns_update)
  have "get_columns (inject_refs n rest ?p2) k = contributed n rest k @ get_columns ?p2 k"
    by (rule Cons.IH) (use Cons.prems s2 in auto)
  then show ?case
    unfolding step by (simp add: Let_def contributed_def)
qed

lemma inject_keys_keys:
  "map fst (inject_keys ts R pruned) = map fst pruned"
proof (induction ts arbitrary: pruned)
  case Nil
  then show ?case by simp
next
  case (Cons t ts)
  show ?case
  proof (cases "fst t \<in> fst ` set pruned")
    case True
    then show ?thesis
      using Cons.IH [of "inject_refs (fst t) (extract_key_columns (constraints (snd t)) R) pruned"]
      by (simp add: inject_refs_keys)
  next
    case False
    then show ?thesis using Cons.IH [of pruned] by simp
  qed
qed

lemma inject_keys_columns:
  assumes "k \<in> fst ` set pruned"
  shows "get_columns (inject_keys ts R pruned) k =
         concat (rev (map (\<lambda>t. contributed (fst t) (extract_key_columns (constraints (snd t)) R) k)
                          (filter (\<lambda>t. fst t \<in> fst ` set pruned) ts)))
         @ get_columns pruned k"
  using assms
proof (induction ts arbitrary: pruned)
  case Nil
  then show ?case by simp
next
  case (Cons t ts)
  show ?case
  proof (cases "fst t \<in> fst ` set pruned")
    case True
    let ?p = "inject_refs (fst t) (extract_key_columns (constraints (snd t)) R) pruned"
    have "map fst ?p = map fst pruned" using True by (rule inject_refs_keys)
    then have keys: "fst ` set ?p = fst ` set pruned" by (metis keys_image)
    have "get_columns (inject_keys ts R ?p) k =
         concat (rev (map (\<lambda>t. contributed (fst t) (extract_key_columns (constraints (snd t)) R) k)
                          (filter (\<lambda>t. fst t \<in> fst ` set ?p) ts)))
         @ get_columns ?p k"
      by (rule Cons.IH) (use Cons.prems keys in simp)
    then show ?thesis
      using True unfolding keys
      by (simp add: inject_refs_columns [OF True Cons.prems])
  next
    case False
    then show ?thesis using Cons.IH [OF Cons.prems] by simp
  qed
qed

lemma ensure_keys_keys: "map fst (ensure_keys tables pruned) = map fst pruned"
  by (simp add: ensure_keys_def inject_keys_keys)

lemma ensure_keys_columns:
  "k \<in> fst ` set pruned \<Longrightarrow>
   get_columns (ensure_keys tables pruned) k
     = key_prefix tables (fst ` set pruned) k @ get_columns pruned k"
  by (simp add: ensure_keys_def inject_keys_columns key_prefix_def)

lemma ensure_keys_absent:
  "k \<notin> fst ` set pruned \<Longrightarrow> get_columns (ensure_keys tables pruned) k = []"
proof -
  assume "k \<notin> fst ` set pruned"
  then have "k \<notin> set (map fst (ensure_keys tables pruned))"
    by (simp add: ensure_keys_keys)
  then have "map_of (ensure_keys tables pruned) k = None"
    by (simp add: map_of_eq_None_iff)
  then show ?thesis by (simp add: get_columns_def)
qed

lemma ensure_keys_twice:
  assumes "k \<in> fst ` set pruned"
  shows "get_columns (ensure_keys tables (ensure_keys tables pruned)) k
     = key_prefix tables (fst ` set pruned) k @ key_prefix tables (fst ` set pruned) k
       @ get_columns pruned k"
proof -
  have "fst ` set (ensure_keys tables pruned) = fst ` set pruned"
    by (metis keys_image ensure_keys_keys)
  then show ?thesis
    using assms ensure_keys_columns [of k "ensure_keys tables pruned" tables]
    by (simp add: ensure_keys_columns)
qed




lemma fk_columns_Nil [simp]: "fk_columns [] R r = []"
  by (simp add: fk_columns_def)









text \<open>
  C4 (as amended). Running step 4 a second time on its own result keeps the tables
  and, for each table, the set of column names, but not the list: the prefix the
  first run put in front is put in front once more.
\<close>

theorem ensure_keys_twice_prepends:
  "map fst (ensure_keys tables (ensure_keys tables pruned)) = map fst (ensure_keys tables pruned)
   \<and> (\<forall>k. set (get_columns (ensure_keys tables (ensure_keys tables pruned)) k)
           = set (get_columns (ensure_keys tables pruned) k))
   \<and> (\<forall>k \<in> fst ` set pruned.
        \<exists>pre. get_columns (ensure_keys tables pruned) k = pre @ get_columns pruned k
          \<and> get_columns (ensure_keys tables (ensure_keys tables pruned)) k
              = pre @ pre @ get_columns pruned k)"
proof (intro conjI allI ballI)
  show "map fst (ensure_keys tables (ensure_keys tables pruned)) = map fst (ensure_keys tables pruned)"
    by (simp add: ensure_keys_keys)
next
  fix k
  have keys: "fst ` set (ensure_keys tables pruned) = fst ` set pruned"
    by (metis keys_image ensure_keys_keys)
  show "set (get_columns (ensure_keys tables (ensure_keys tables pruned)) k)
           = set (get_columns (ensure_keys tables pruned) k)"
  proof (cases "k \<in> fst ` set pruned")
    case True
    then show ?thesis by (simp add: ensure_keys_twice ensure_keys_columns)
  next
    case False
    then show ?thesis using keys by (simp add: ensure_keys_absent)
  qed
next
  fix k assume k: "k \<in> fst ` set pruned"
  show "\<exists>pre. get_columns (ensure_keys tables pruned) k = pre @ get_columns pruned k
          \<and> get_columns (ensure_keys tables (ensure_keys tables pruned)) k
              = pre @ pre @ get_columns pruned k"
    by (intro exI [of _ "key_prefix tables (fst ` set pruned) k"] conjI
        ensure_keys_columns [OF k] ensure_keys_twice [OF k])
qed


theorem ensure_keys_twice_prepends_witness:
  "''grade'' \<in> fst ` set demo_pruned
   \<and> get_columns (ensure_keys demo_tables demo_pruned) ''grade'' = [''student_id'', ''grade'']
   \<and> get_columns (ensure_keys demo_tables (ensure_keys demo_tables demo_pruned)) ''grade''
       = [''student_id'', ''student_id'', ''grade'']"
proof -
  have k: "''grade'' \<in> fst ` set demo_pruned" by (simp add: demo_pruned_def)
  have once: "get_columns (ensure_keys demo_tables demo_pruned) ''grade'' = [''student_id'', ''grade'']"
    by code_simp
  have old: "get_columns demo_pruned ''grade'' = [''grade'']"
    by (simp add: get_columns_def demo_pruned_def)
  from ensure_keys_twice_prepends [of demo_tables demo_pruned] k
  obtain pre where pre: "get_columns (ensure_keys demo_tables demo_pruned) ''grade''
                          = pre @ get_columns demo_pruned ''grade''"
    and twice: "get_columns (ensure_keys demo_tables (ensure_keys demo_tables demo_pruned)) ''grade''
                  = pre @ pre @ get_columns demo_pruned ''grade''"
    by blast
  from pre have "pre = [''student_id'']"
    unfolding once old by simp
  with twice k once old show ?thesis by simp
qed

theorem ensure_keys_not_idempotent_counterexample:
  "ensure_keys demo_tables demo_pruned
     = [(''grade'', [''student_id'', ''grade'']),
        (''student_details'', [''student_id'', ''given_name''])]
   \<and> ensure_keys demo_tables (ensure_keys demo_tables demo_pruned)
     = [(''grade'', [''student_id'', ''student_id'', ''grade'']),
        (''student_details'', [''student_id'', ''student_id'', ''given_name''])]
   \<and> ensure_keys demo_tables (ensure_keys demo_tables demo_pruned)
     \<noteq> ensure_keys demo_tables demo_pruned"
  by code_simp

section \<open>Raising every score\<close>










section \<open>Columns without a comment\<close>

lemma parse_null_comment_schema:
  "parse_context null_comment_schema =
     [(''student_details'',
       \<lparr>comment = ''students'',
        columns = [(''student_id'', \<lparr>col_type = ''INTEGER'', col_comment = Some ''the id''\<rparr>),
                   (''age'', \<lparr>col_type = ''INTEGER'', col_comment = None\<rparr>)],
        constraints = []\<rparr>)]"
  by code_simp

lemma scored_texts_mem:
  "(n, info) \<in> set tables \<Longrightarrow> (c, ci) \<in> set (columns info) \<Longrightarrow>
   col_comment ci \<in> set (scored_texts tables)"
  by (force simp: scored_texts_def)

text \<open>
  C2. The parser stores \<^verbatim>\<open>None\<close> as the comment of a column with no comment line, and
  the pruner passes that \<^verbatim>\<open>None\<close> to \<^verbatim>\<open>encodes\<close> as it is: no empty string is put in
  its place. With an encoder that rejects a non-string, every metadata model
  holding such a column makes \<^verbatim>\<open>prune_top_k\<close> fault, also when the encoder accepts
  the empty string.
\<close>

theorem prune_top_k_null_comment:
  assumes "encode E None = Inl e"
    and "(n, info) \<in> set tables" and "(c, ci) \<in> set (columns info)" and "col_comment ci = None"
  shows "\<exists>e'. prune_top_k E question results tables = Inl e'"
proof (cases "prune_top_k E question results tables")
  case (Inl e')
  then show ?thesis by blast
next
  case (Inr s)
  then obtain q all_sim where "compute_similarities E q tables [] = Inr all_sim"
    by (auto simp: prune_top_k_def and_then_Inr_iff)
  from compute_similarities_encoded [OF this] scored_texts_mem [OF assms(2,3)] assms(4)
  obtain emb where "encodes E None = Inr emb" by force
  with assms(1) show ?thesis by (simp add: encodes_def)
qed

theorem prune_top_k_null_comment_witness:
  "encode length_encoder None = Inl TypeError
   \<and> encode length_encoder (Some []) = Inr 0
   \<and> parse_context null_comment_schema =
     [(''student_details'',
       \<lparr>comment = ''students'',
        columns = [(''student_id'', \<lparr>col_type = ''INTEGER'', col_comment = Some ''the id''\<rparr>),
                   (''age'', \<lparr>col_type = ''INTEGER'', col_comment = None\<rparr>)],
        constraints = []\<rparr>)]
   \<and> (\<exists>e'. prune_top_k length_encoder ''grades?'' [] (parse_context null_comment_schema) = Inl e')
   \<and> prune_top_k length_encoder ''grades?'' [] (parse_context null_comment_schema) = Inl TypeError"
proof -
  have h1: "encode length_encoder None = Inl TypeError" by (simp add: length_encoder_def)
  have h0: "encode length_encoder (Some []) = Inr 0" by (simp add: length_encoder_def)
  note p = parse_null_comment_schema
  have h2: "(''student_details'',
       \<lparr>comment = ''students'',
        columns = [(''student_id'', \<lparr>col_type = ''INTEGER'', col_comment = Some ''the id''\<rparr>),
                   (''age'', \<lparr>col_type = ''INTEGER'', col_comment = None\<rparr>)],
        constraints = []\<rparr>) \<in> set (parse_context null_comment_schema)"
    unfolding p by simp
  have v: "prune_top_k length_encoder ''grades?'' [] (parse_context null_comment_schema) = Inl TypeError"
    unfolding p by code_simp
  from prune_top_k_null_comment [OF h1 h2, of "''age''" "\<lparr>col_type = ''INTEGER'', col_comment = None\<rparr>" "''grades?''" "[]"]
  have "\<exists>e'. prune_top_k length_encoder ''grades?'' [] (parse_context null_comment_schema) = Inl e'"
    by simp
  with h0 h1 p v show ?thesis by simp
qed

section \<open>The parser and statements without a comment\<close>

lemma startswith_Cons_one: "startswith (c # cs) [d] \<longleftrightarrow> c = d"
  by (simp add: startswith_def)

lemma boundary_head: "c \<noteq> CHR '';'' \<Longrightarrow> boundary (c # cs) = None"
  by (simp add: boundary_def startswith_def)

lemma re_split_nonempty [simp]: "re_split s \<noteq> []"
  by (induction s rule: re_split.induct) (auto split: option.splits list.splits)

lemma re_split_no_semicolon:
  "CHR '';'' \<notin> set X \<Longrightarrow> re_split Y = [Y] \<Longrightarrow> re_split (X @ Y) = [X @ Y]"
  by (induction X) (auto simp: boundary_head)

lemma not_space_C: "\<not> is_space (CHR ''C'')"
  by (simp add: is_space_def)

lemma not_semicolon_space: "is_space c \<Longrightarrow> c \<noteq> CHR '';''"
  by (auto simp: is_space_def)

lemma not_semicolon_word: "is_word c \<Longrightarrow> c \<noteq> CHR '';''"
  by (auto simp: is_word_def)

lemma boundary_uncommented:
  assumes "\<forall>c \<in> set ws. is_space c"
  shows "boundary ('';'' @ ws @ ''CREATE TABLE'' @ rest) = None"
proof -
  have "dropWhile is_space (ws @ ''CREATE TABLE'' @ rest) = ''CREATE TABLE'' @ rest"
    using assms by (simp add: dropWhile_append2 not_space_C)
  then show ?thesis
    by (simp add: boundary_def startswith_def)
qed

lemma lazy_until_create_skip:
  "NL \<notin> set cmt \<Longrightarrow>
   lazy_until_create (cmt @ NL # rest)
     = map_option (\<lambda>(g, t_name). (cmt @ g, t_name)) (lazy_until_create (NL # rest))"
proof (induction cmt)
  case Nil
  show ?case by (simp add: option.map_ident split_def del: lazy_until_create.simps)
next
  case (Cons c cmt)
  then have "c \<noteq> NL" and "NL \<notin> set cmt" by auto
  then have "\<not> startswith (c # cmt @ NL # rest) (NL # ''CREATE TABLE '')"
    by (simp add: startswith_def)
  then show ?case
    using Cons.IH [OF \<open>NL \<notin> set cmt\<close>]
    by (simp add: option.map_comp comp_def split_def del: lazy_until_create.simps(2))
       (simp add: lazy_until_create.simps(2) [of c] option.map_comp comp_def split_def)
qed

lemma takeWhile_word_name:
  assumes "\<forall>c \<in> set a. is_word c" and "tail = [] \<or> \<not> is_word (hd tail)"
  shows "takeWhile is_word (a @ tail) = a"
proof -
  have "takeWhile is_word tail = []"
    using assms(2) by (cases tail) auto
  then show ?thesis using assms(1) by (simp add: takeWhile_append2)
qed

lemma lazy_until_create_here:
  assumes "a \<noteq> []" and "\<forall>c \<in> set a. is_word c" and "tail = [] \<or> \<not> is_word (hd tail)"
  shows "lazy_until_create (NL # ''CREATE TABLE '' @ a @ tail) = Some ([], a)"
proof -
  define cs where "cs = ''CREATE TABLE '' @ a @ tail"
  have sw: "startswith (NL # cs) (NL # ''CREATE TABLE '')"
    by (simp add: cs_def startswith_def)
  have tw: "takeWhile is_word (drop 14 (NL # cs)) = a"
    using takeWhile_word_name [OF assms(2,3)] by (simp add: cs_def)
  have "lazy_until_create (NL # cs) = Some ([], a)"
    using sw tw assms(1) by simp
  then show ?thesis by (simp only: cs_def)
qed

lemma table_comment_search_commented:
  assumes "NL \<notin> set cmt" and "a \<noteq> []" and "\<forall>c \<in> set a. is_word c"
    and "tail = [] \<or> \<not> is_word (hd tail)"
  shows "table_comment_search (''--'' @ cmt @ [NL] @ ''CREATE TABLE '' @ a @ tail) = Some (cmt, a)"
proof -
  define X where "X = cmt @ NL # ''CREATE TABLE '' @ a @ tail"
  have "lazy_until_create X
          = map_option (\<lambda>(g, t_name). (cmt @ g, t_name))
              (lazy_until_create (NL # ''CREATE TABLE '' @ a @ tail))"
    unfolding X_def by (rule lazy_until_create_skip [OF assms(1)])
  also have "\<dots> = Some (cmt, a)"
    unfolding lazy_until_create_here [OF assms(2,3,4)] by simp
  finally have lx: "lazy_until_create X = Some (cmt, a)" .
  have "table_comment_search (''--'' @ X) = Some (cmt, a)"
    using lx by (simp add: startswith_def)
  then show ?thesis by (simp add: X_def)
qed

lemma parse_lines_comment: "comment (parse_lines ls cc info) = comment info"
  by (induction ls arbitrary: cc info) (auto simp: Let_def split: option.splits)

lemma parse_lines_keys:
  "fst ` set (columns (parse_lines ls cc info))
     = fst ` set (columns info) \<union> {n. \<exists>l \<in> set ls. column_line_name l = Some n}"
proof (induction ls arbitrary: cc info)
  case Nil
  then show ?case by simp
next
  case (Cons raw rest)
  let ?N = "{n. \<exists>l \<in> set rest. column_line_name l = Some n}"
  have split: "{n. \<exists>l \<in> set (raw # rest). column_line_name l = Some n}
                 = (case column_line_name raw of None \<Rightarrow> {} | Some n \<Rightarrow> {n}) \<union> ?N"
    by (auto split: option.splits)
  show ?case
  proof (cases "column_line_name raw")
    case None
    have "fst ` set (columns (parse_lines (raw # rest) cc info)) = fst ` set (columns info) \<union> ?N"
      using None
      by (auto simp: column_line_name_def Let_def Cons.IH split: if_splits option.splits)
    then show ?thesis unfolding split None by simp
  next
    case (Some n)
    have "fst ` set (columns (parse_lines (raw # rest) cc info))
            = insert n (fst ` set (columns info)) \<union> ?N"
      using Some
      by (auto simp: column_line_name_def Let_def Cons.IH dom_update split: if_splits option.splits)
    then show ?thesis unfolding split Some by simp
  qed
qed

lemma split_lines_nonempty [simp]: "split_lines s \<noteq> []"
  by (induction s) (auto split: list.splits)

lemma tl_split_lines_Cons: "set (tl (split_lines cs)) \<subseteq> set (tl (split_lines (c # cs)))"
  by (cases "split_lines cs") (auto intro: list.set_sel(2))

lemma tl_split_lines_append: "set (tl (split_lines Y)) \<subseteq> set (tl (split_lines (X @ Y)))"
proof (induction X)
  case Nil
  then show ?case by simp
next
  case (Cons c X)
  then show ?case using tl_split_lines_Cons [of "X @ Y" c] by auto
qed

lemma set_tl_subset: "set (tl xs) \<subseteq> set xs"
  by (cases xs) auto

lemma later_lines_append: "l \<in> set (tl (split_lines Y)) \<Longrightarrow> l \<in> set (split_lines (X @ Y))"
  using tl_split_lines_append [of Y X] set_tl_subset [of "split_lines (X @ Y)"] by blast

subsection \<open>Commented statements and the ones that follow them\<close>

lemma attach_attach: "ps \<noteq> [] \<Longrightarrow> attach X (attach X' ps) = attach (X @ X') ps"
  by (cases ps) (simp_all add: attach_def)

lemma attach_nonempty [simp]: "attach X ps \<noteq> []"
  by (simp add: attach_def split: list.splits)

lemma re_split_prefix:
  "CHR '';'' \<notin> set X \<Longrightarrow> re_split (X @ Y) = attach X (re_split Y)"
  by (induction X) (auto simp: boundary_head attach_def split: list.splits)

lemma re_split_plain: "CHR '';'' \<notin> set X \<Longrightarrow> re_split X = [X]"
  using re_split_no_semicolon [of X "[]"] by simp

lemma re_split_uncommented_prefix:
  assumes "list_all is_space (fst f)" and "CHR '';'' \<notin> set (snd f)"
  shows "re_split (uncommented f @ Y) = attach (uncommented f) (re_split Y)"
proof -
  define X where "X = fst f @ ''CREATE TABLE'' @ snd f"
  have ws: "\<forall>c \<in> set (fst f). is_space c" using assms(1) by (simp add: list_all_iff)
  have "CHR '';'' \<notin> set (fst f)" using ws not_semicolon_space by blast
  then have nosemi: "CHR '';'' \<notin> set X" using assms(2) by (simp add: X_def)
  have b: "boundary (CHR '';'' # X @ Y) = None"
    using boundary_uncommented [OF ws, of "snd f @ Y"] by (simp add: X_def)
  have "re_split (CHR '';'' # X @ Y) = attach (CHR '';'' # X) (re_split Y)"
    using b re_split_prefix [OF nosemi, of Y]
    by (cases "re_split Y") (simp_all add: attach_def)
  then show ?thesis by (simp add: uncommented_def X_def)
qed

lemma re_split_follow_prefix:
  assumes "list_all (\<lambda>f. list_all is_space (fst f) \<and> CHR '';'' \<notin> set (snd f)) fs"
  shows "re_split (concat (map uncommented fs) @ Y)
           = attach (concat (map uncommented fs)) (re_split Y)"
  using assms
proof (induction fs)
  case Nil
  then show ?case by (cases "re_split Y") (simp_all add: attach_def)
next
  case (Cons f fs)
  have "re_split (uncommented f @ (concat (map uncommented fs) @ Y))
          = attach (uncommented f) (re_split (concat (map uncommented fs) @ Y))"
    using Cons.prems by (intro re_split_uncommented_prefix) simp_all
  also have "\<dots> = attach (uncommented f) (attach (concat (map uncommented fs)) (re_split Y))"
    using Cons.IH Cons.prems by simp
  also have "\<dots> = attach (uncommented f @ concat (map uncommented fs)) (re_split Y)"
    by (rule attach_attach) simp
  finally show ?case by simp
qed

lemma segment_prefix:
  assumes "well_formed s"
  shows "re_split (segment s @ Y) = attach (segment s) (re_split Y)"
proof -
  define A where "A = ''--'' @ st_comment s @ [NL] @ ''CREATE TABLE '' @ st_name s @ st_body s"
  define F where "F = concat (map uncommented (st_follow s))"
  have "CHR '';'' \<notin> set (st_name s)"
    using assms not_semicolon_word by (auto simp: well_formed_def list_all_iff)
  then have nosemi: "CHR '';'' \<notin> set A"
    using assms by (simp add: well_formed_def A_def)
  have "re_split (A @ (F @ Y)) = attach A (re_split (F @ Y))"
    by (rule re_split_prefix [OF nosemi])
  also have "re_split (F @ Y) = attach F (re_split Y)"
    unfolding F_def using assms by (intro re_split_follow_prefix) (simp add: well_formed_def)
  also have "attach A (attach F (re_split Y)) = attach (A @ F) (re_split Y)"
    by (rule attach_attach) simp
  finally show ?thesis by (simp add: segment_def A_def F_def)
qed

lemma not_space_dash: "\<not> is_space (CHR ''-'')"
  by (simp add: is_space_def)

lemma dropWhile_until:
  "c \<notin> set xs \<Longrightarrow> dropWhile (\<lambda>x. x \<noteq> c) (xs @ c # ys) = c # ys"
  by (induction xs) auto

lemma boundary_commented:
  assumes "\<forall>c \<in> set gap. is_space c" and "NL \<notin> set cmt"
  shows "boundary ('';'' @ gap @ ''--'' @ cmt @ [NL] @ ''CREATE TABLE '' @ rest)
           = Some (length gap)"
proof -
  define W where "W = NL # ''CREATE TABLE '' @ rest"
  define Z where "Z = ''--'' @ cmt @ W"
  have d: "dropWhile is_space (gap @ Z) = Z"
    using assms(1) by (simp add: dropWhile_append2 not_space_dash Z_def)
  have t: "takeWhile is_space (gap @ Z) = gap"
    using assms(1) by (simp add: takeWhile_append2 not_space_dash Z_def)
  have n: "dropWhile (\<lambda>c. c \<noteq> NL) (cmt @ W) = W"
    unfolding W_def using assms(2) by (rule dropWhile_until)
  have sw: "startswith Z ''--''" by (simp add: Z_def startswith_def)
  have dz: "drop 2 Z = cmt @ W" by (simp add: Z_def)
  have sw2: "startswith W (NL # ''CREATE TABLE'')"
    by (simp add: W_def startswith_def)
  have "boundary (CHR '';'' # gap @ Z) = Some (length gap)"
    unfolding boundary_def by (simp add: startswith_Cons_one d t sw dz n sw2 Let_def)
  then show ?thesis by (simp add: Z_def W_def)
qed

lemma uncommented_head: "uncommented f = CHR '';'' # fst f @ ''CREATE TABLE'' @ snd f"
  by (simp add: uncommented_def)

lemma re_split_render:
  assumes "list_all well_formed (s # rest)"
  shows "re_split (render (s # rest))
           = (if rest = [] then [segment s @ '';'' @ st_gap s]
              else segment s # re_split (render rest))"
proof -
  have wf: "well_formed s" using assms by simp
  have gap: "\<forall>c \<in> set (st_gap s). is_space c"
    using wf by (simp add: well_formed_def list_all_iff)
  have shape: "render (s # rest) = segment s @ ('';'' @ st_gap s @ render rest)"
    by simp
  show ?thesis
  proof (cases "rest = []")
    case True
    have "CHR '';'' \<notin> set (st_gap s)" using gap not_semicolon_space by blast
    then have g: "re_split (st_gap s) = [st_gap s]" by (rule re_split_plain)
    have dw: "dropWhile is_space (st_gap s) = []" using gap by simp
    have "boundary (CHR '';'' # st_gap s) = None"
      by (simp add: boundary_def startswith_def Let_def dw del: dropWhile_eq_Nil_conv)
    then have "re_split ('';'' @ st_gap s) = ['';'' @ st_gap s]" using g by simp
    then show ?thesis
      unfolding shape segment_prefix [OF wf] using True by (simp add: attach_def)
  next
    case False
    then obtain s' rest' where r: "rest = s' # rest'" by (cases rest) auto
    have "well_formed s'" using assms r by simp
    then have nl: "NL \<notin> set (st_comment s')" by (simp add: well_formed_def)
    define tail where "tail = st_name s' @ st_body s' @ concat (map uncommented (st_follow s'))
                                 @ '';'' @ st_gap s' @ render rest'"
    have rr: "render rest = ''--'' @ st_comment s' @ [NL] @ ''CREATE TABLE '' @ tail"
      by (simp add: r segment_def tail_def)
    have b: "boundary ('';'' @ st_gap s @ render rest) = Some (length (st_gap s))"
      unfolding rr by (rule boundary_commented [OF gap nl])
    have "re_split ('';'' @ st_gap s @ render rest) = [] # re_split (render rest)"
      using b by simp
    then show ?thesis
      unfolding shape segment_prefix [OF wf] using False by (simp add: attach_def)
  qed
qed

lemma search_segment:
  assumes "well_formed s" and "t = [] \<or> hd t = CHR '';''"
  shows "table_comment_search (segment s @ t) = Some (st_comment s, st_name s)"
proof -
  define F where "F = concat (map uncommented (st_follow s))"
  have Fhd: "F = [] \<or> hd F = CHR '';''"
    unfolding F_def by (cases "st_follow s") (simp_all add: uncommented_head)
  have tail: "st_body s @ F @ t = [] \<or> \<not> is_word (hd (st_body s @ F @ t))"
  proof (cases "st_body s")
    case Nil
    then show ?thesis
      using Fhd assms(2) by (cases F) (auto simp: is_word_def)
  next
    case (Cons c cs)
    then show ?thesis using assms(1) by (simp add: well_formed_def)
  qed
  have "table_comment_search (''--'' @ st_comment s @ [NL] @ ''CREATE TABLE '' @ st_name s
                               @ (st_body s @ F @ t)) = Some (st_comment s, st_name s)"
    using assms(1) by (intro table_comment_search_commented tail)
                      (auto simp: well_formed_def list_all_iff)
  then show ?thesis by (simp add: segment_def F_def)
qed

lemma parse_segments_entries:
  assumes "list_all2 (\<lambda>seg s. table_comment_search seg = Some (st_comment s, st_name s)) segs stmts"
    and "distinct (map st_name stmts)"
    and "fst ` set acc \<inter> st_name ` set stmts = {}"
  shows "parse_segments segs acc = acc @ map (\<lambda>(seg, s). entry_of seg s) (zip segs stmts)"
  using assms
proof (induction segs stmts arbitrary: acc rule: list_all2_induct)
  case Nil
  then show ?case by simp
next
  case (Cons seg segs s stmts)
  have fresh: "st_name s \<notin> fst ` set acc" using Cons.prems(2) by auto
  have upd: "AList.update (st_name s) (snd (entry_of seg s)) acc = acc @ [entry_of seg s]"
    using update_fresh [OF fresh] by (simp add: entry_of_def)
  have step: "parse_segments (seg # segs) acc = parse_segments segs (acc @ [entry_of seg s])"
    using Cons.hyps(1) upd by (simp add: entry_of_def)
  have d: "distinct (map st_name stmts)" using Cons.prems(1) by simp
  have disj: "fst ` set (acc @ [entry_of seg s]) \<inter> st_name ` set stmts = {}"
    using Cons.prems by (auto simp: entry_of_def)
  from Cons.IH [OF d disj] show ?case
    unfolding step by simp
qed

lemma segments_of_render:
  assumes "list_all well_formed stmts" and "stmts \<noteq> []"
  shows "list_all2 (\<lambda>seg s. table_comment_search seg = Some (st_comment s, st_name s)
                              \<and> (\<exists>S. seg = segment s @ S))
           (re_split (render stmts)) stmts"
  using assms
proof (induction stmts)
  case Nil
  then show ?case by simp
next
  case (Cons s rest)
  have wf: "well_formed s" using Cons.prems(1) by simp
  show ?case
  proof (cases "rest = []")
    case True
    have "table_comment_search (segment s @ '';'' @ st_gap s) = Some (st_comment s, st_name s)"
      by (rule search_segment [OF wf]) simp
    then show ?thesis
      unfolding re_split_render [OF Cons.prems(1)] using True by simp
  next
    case False
    have "table_comment_search (segment s @ []) = Some (st_comment s, st_name s)"
      by (rule search_segment [OF wf]) simp
    moreover have "list_all2 (\<lambda>seg s. table_comment_search seg = Some (st_comment s, st_name s)
                              \<and> (\<exists>S. seg = segment s @ S))
           (re_split (render rest)) rest"
      using Cons.IH Cons.prems(1) False by simp
    ultimately show ?thesis
      unfolding re_split_render [OF Cons.prems(1)] using False by simp
  qed
qed

lemma parse_context_render:
  assumes "list_all well_formed stmts" and "distinct (map st_name stmts)"
  shows "parse_context (render stmts)
           = (if stmts = [] then []
              else map (\<lambda>(seg, s). entry_of seg s) (zip (re_split (render stmts)) stmts))"
proof (cases "stmts = []")
  case True
  then show ?thesis by (simp add: parse_context_def)
next
  case False
  have "list_all2 (\<lambda>seg s. table_comment_search seg = Some (st_comment s, st_name s))
           (re_split (render stmts)) stmts"
    using segments_of_render [OF assms(1) False] by (rule list_all2_mono) simp
  from parse_segments_entries [OF this assms(2), of "[]"] False
  show ?thesis by (simp add: parse_context_def)
qed

lemma map_zip_snd:
  "length xs = length ys \<Longrightarrow> map (\<lambda>p. f (snd p)) (zip xs ys) = map f ys"
  by (induction xs ys rule: list_induct2) simp_all

text \<open>
  The parsing round trip: a schema of \<open>N\<close> well-formed commented statements with
  distinct table names is parsed to exactly \<open>N\<close> entries, keyed by the declared
  names in order, each with its stripped comment; the statements without a
  comment that follow a commented one add no entry.
\<close>

theorem parse_context_commented_tables:
  assumes "list_all well_formed stmts" and "distinct (map st_name stmts)"
  shows "length (parse_context (render stmts)) = length stmts
       \<and> map fst (parse_context (render stmts)) = map st_name stmts
       \<and> map (comment \<circ> snd) (parse_context (render stmts)) = map (strip \<circ> st_comment) stmts"
proof (cases "stmts = []")
  case True
  then show ?thesis by (simp add: parse_context_def)
next
  case False
  have len: "length (re_split (render stmts)) = length stmts"
    using segments_of_render [OF assms(1) False] by (rule list_all2_lengthD)
  have k: "map fst (map (\<lambda>(seg, s). entry_of seg s) (zip (re_split (render stmts)) stmts))
          = map st_name stmts"
    using map_zip_snd [OF len, of st_name]
    by (simp add: entry_of_def split_def comp_def)
  have c: "map (comment \<circ> snd) (map (\<lambda>(seg, s). entry_of seg s) (zip (re_split (render stmts)) stmts))
          = map (strip \<circ> st_comment) stmts"
    using map_zip_snd [OF len, of "strip \<circ> st_comment"]
    by (simp add: entry_of_def split_def comp_def parse_lines_comment)
  from k have "length (map (\<lambda>(seg, s). entry_of seg s) (zip (re_split (render stmts)) stmts))
                 = length stmts"
    by (metis length_map)
  with k c show ?thesis
    unfolding parse_context_render [OF assms] using False by simp
qed

lemma split_lines_append:
  "split_lines (X @ Y)
     = butlast (split_lines X) @ [last (split_lines X) @ hd (split_lines Y)] @ tl (split_lines Y)"
proof (induction X)
  case Nil
  then show ?case by (cases "split_lines Y") simp_all
next
  case (Cons c X)
  obtain x xs where lx: "split_lines X = x # xs"
    by (cases "split_lines X") simp_all
  show ?case
  proof (cases "c = NL")
    case True
    then show ?thesis using Cons.IH lx by simp
  next
    case False
    then show ?thesis using Cons.IH lx by (cases xs) simp_all
  qed
qed

lemma interior_lines:
  assumes "l \<in> set (butlast (tl (split_lines M)))"
  shows "l \<in> set (split_lines (P @ M @ S))"
proof -
  obtain x xs where lm: "split_lines M = x # xs"
    by (cases "split_lines M") simp_all
  from assms lm have ne: "xs \<noteq> []" by auto
  then have bl: "butlast (split_lines M) = x # butlast xs" using lm by simp
  have "tl (split_lines (M @ S)) = butlast xs @ [last (split_lines M) @ hd (split_lines S)]
                                     @ tl (split_lines S)"
    unfolding split_lines_append [of M S] bl by simp
  with assms lm have "l \<in> set (tl (split_lines (M @ S)))" by simp
  then show ?thesis by (rule later_lines_append)
qed

lemma list_all2_pick:
  assumes "list_all2 Q xs ys" and "y \<in> set ys"
  shows "\<exists>x. (x, y) \<in> set (zip xs ys) \<and> Q x y"
  using assms by (induction xs ys rule: list_all2_induct) auto

text \<open>
  C10. In a schema of well-formed commented statements with distinct names, let
  a \<^verbatim>\<open>CREATE TABLE\<close> statement \<open>f\<close> without a comment line follow the commented
  statement \<open>s\<close>. Then no boundary is cut before it: a piece of the split starts
  with the whole segment of \<open>s\<close>, the uncommented statement included. The parser's
  keys are the names of the commented statements only. And every line of the
  uncommented statement (after its header line and before its last line) that
  the line loop reads as a column, of name \<open>n\<close>, is in the column map of \<open>s\<close>.
\<close>

theorem uncommented_statement_merged:
  assumes "list_all well_formed stmts" and "distinct (map st_name stmts)"
    and "s \<in> set stmts" and "f \<in> set (st_follow s)"
    and "l \<in> set (butlast (tl (split_lines (''CREATE TABLE'' @ snd f))))"
    and "column_line_name l = Some n"
  shows "map fst (parse_context (render stmts)) = map st_name stmts
       \<and> (\<exists>seg S. seg \<in> set (re_split (render stmts)) \<and> seg = segment s @ S)
       \<and> (\<exists>info. (st_name s, info) \<in> set (parse_context (render stmts))
                   \<and> comment info = strip (st_comment s)
                   \<and> n \<in> fst ` set (columns info))"
proof -
  have ne: "stmts \<noteq> []" using assms(3) by auto
  from list_all2_pick [OF segments_of_render [OF assms(1) ne] assms(3)]
  obtain seg S where z: "(seg, s) \<in> set (zip (re_split (render stmts)) stmts)"
    and seg: "seg = segment s @ S"
    by blast
  have segin: "seg \<in> set (re_split (render stmts))"
    using z by (rule set_zip_leftD)
  have e: "entry_of seg s \<in> set (parse_context (render stmts))"
    unfolding parse_context_render [OF assms(1,2)] using ne z by force
  define info where "info = snd (entry_of seg s)"
  have ent: "entry_of seg s = (st_name s, info)" by (simp add: info_def entry_of_def)
  have c: "comment info = strip (st_comment s)"
    by (simp add: info_def entry_of_def parse_lines_comment)
  from assms(4) obtain fs1 fs2 where fs: "st_follow s = fs1 @ f # fs2"
    by (auto dest: split_list)
  define P where "P = ''--'' @ st_comment s @ [NL] @ ''CREATE TABLE '' @ st_name s @ st_body s
                        @ concat (map uncommented fs1) @ '';'' @ fst f"
  have "seg = P @ (''CREATE TABLE'' @ snd f) @ (concat (map uncommented fs2) @ S)"
    by (simp add: seg segment_def fs uncommented_def P_def)
  then have "l \<in> set (split_lines seg)"
    using interior_lines [OF assms(5)] by simp
  then have "n \<in> fst ` set (columns info)"
    unfolding info_def entry_of_def using assms(6) by (auto simp: parse_lines_keys)
  with c e ent segin seg parse_context_commented_tables [OF assms(1,2)]
  show ?thesis by auto
qed

lemma parse_mixed_schema:
  "parse_context (render mixed_schema) =
     [(''student_details'',
       \<lparr>comment = ''students enrolled'',
        columns = [(''student_id'', \<lparr>col_type = ''INTEGER'', col_comment = Some ''the id''\<rparr>),
                   (''grade'', \<lparr>col_type = ''REAL'', col_comment = None\<rparr>)],
        constraints = [''FOREIGN KEY (student_id) REFERENCES student_details (student_id)'']\<rparr>),
      (''unit'',
       \<lparr>comment = ''units'',
        columns = [(''title'', \<lparr>col_type = ''TEXT'', col_comment = Some ''the title''\<rparr>)],
        constraints = []\<rparr>)]"
  by code_simp

theorem uncommented_statement_merged_witness:
  "list_all well_formed mixed_schema \<and> distinct (map st_name mixed_schema)
   \<and> column_line_name ''    grade REAL,'' = Some ''grade''
   \<and> map fst (parse_context (render mixed_schema)) = [''student_details'', ''unit'']
   \<and> (\<exists>info. (''student_details'', info) \<in> set (parse_context (render mixed_schema))
          \<and> comment info = ''students enrolled''
          \<and> ''grade'' \<in> fst ` set (columns info))"
proof -
  define s where "s = hd mixed_schema"
  define f where "f = hd (st_follow s)"
  have h1: "list_all well_formed mixed_schema"
    by (simp add: mixed_schema_def well_formed_def is_word_def is_space_def)
  have h2: "distinct (map st_name mixed_schema)"
    by (simp add: mixed_schema_def)
  have h3: "s \<in> set mixed_schema" by (simp add: s_def mixed_schema_def)
  have h4: "f \<in> set (st_follow s)" by (simp add: f_def s_def mixed_schema_def)
  have h5: "''    grade REAL,'' \<in> set (butlast (tl (split_lines (''CREATE TABLE'' @ snd f))))"
    unfolding f_def s_def mixed_schema_def by code_simp
  have h6: "column_line_name ''    grade REAL,'' = Some ''grade''"
    by code_simp
  have n: "st_name s = ''student_details''" by (simp add: s_def mixed_schema_def)
  have c: "strip (st_comment s) = ''students enrolled''"
    unfolding s_def mixed_schema_def by code_simp
  have names: "map st_name mixed_schema = [''student_details'', ''unit'']"
    by (simp add: mixed_schema_def)
  from uncommented_statement_merged [OF h1 h2 h3 h4 h5 h6] h1 h2 h6
  show ?thesis unfolding n c names by blast
qed

theorem parse_context_commented_tables_witness:
  "list_all well_formed mixed_schema \<and> distinct (map st_name mixed_schema)
   \<and> length (parse_context (render mixed_schema)) = 2
   \<and> map fst (parse_context (render mixed_schema)) = [''student_details'', ''unit'']"
proof -
  have h1: "list_all well_formed mixed_schema"
    by (simp add: mixed_schema_def well_formed_def is_word_def is_space_def)
  have h2: "distinct (map st_name mixed_schema)"
    by (simp add: mixed_schema_def)
  from parse_context_commented_tables [OF h1 h2] h1 h2 show ?thesis
    by (simp add: mixed_schema_def)
qed

subsection \<open>A statement without a comment that gets an entry\<close>

text \<open>
  C8. On \<open>uncommented_schema\<close> neither statement has a comment line before it, yet
  the parser yields an entry: the search for the table comment starts at the
  column comment of the first statement and, under \<^verbatim>\<open>re.DOTALL\<close>, runs across the
  lines to the header of the second, whose name \<open>b\<close> becomes a key.
\<close>

theorem parse_context_uncommented_entry:
  "parse_context uncommented_schema =
     [(''b'',
       \<lparr>comment = ''the id'' @ [NL] @ ''id INT'' @ [NL] @ '');'',
        columns = [(''id'', \<lparr>col_type = ''INT'', col_comment = Some ''the id''\<rparr>),
                   (''y'', \<lparr>col_type = ''INT'', col_comment = None\<rparr>)],
        constraints = []\<rparr>)]"
  by code_simp

theorem parse_context_uncommented_entry_witness:
  "map fst (parse_context uncommented_schema) = [''b'']"
  using parse_context_uncommented_entry by simp

end
